theory Spec2Isabelle
  imports Main "HOL-Library.Multiset"
begin

section \<open>MAVLink CRC-extra calculator (crc\_calculator.py)\<close>

subsection \<open>Python values\<close>

text \<open>
  A Python \<open>str\<close> is a sequence of Unicode code points; \<open>ord\<close> of a character is
  its code point. Strings are therefore lists of code points, and \<open>str\<close> turns a
  literal into one. Python integers are unbounded: \<open>int\<close>. The only exception the
  module can raise on a list of well-keyed field dictionaries is \<open>ValueError\<close>
  (from \<open>str.index\<close> and from \<open>int()\<close>).
\<close>

type_synonym pystr = "nat list"

definition str :: "string \<Rightarrow> pystr" where
  "str s = map of_char s"

datatype py_error = ValueError

subsection \<open>The CRC-16/MCRF4XX accumulator\<close>

text \<open>
  \<open>crc16_mcrf4xx\<close> loops over the bytes of \<open>data\<close>; the loop body is the function
  \<open>crc16_step\<close>, which (unlike \<open>accumulate_byte\<close>) does not mask \<open>byte\<close>.
\<close>

definition crc16_step :: "int \<Rightarrow> int \<Rightarrow> int" where
  "crc16_step byte crc =
     (let tmp = xor byte (and crc 0xFF);
          tmp = and (xor tmp (push_bit 4 tmp)) 0xFF
      in and (xor (xor (xor (drop_bit 8 crc) (push_bit 8 tmp)) (push_bit 3 tmp)) (drop_bit 4 tmp)) 0xFFFF)"

fun crc16_mcrf4xx :: "int list \<Rightarrow> int \<Rightarrow> int" where
  "crc16_mcrf4xx [] crc = crc"
| "crc16_mcrf4xx (byte # data) crc = crc16_mcrf4xx data (crc16_step byte crc)"

definition accumulate_byte :: "int \<Rightarrow> int \<Rightarrow> int" where
  "accumulate_byte byte crc =
     (let byte = and byte 0xFF;
          tmp = xor byte (and crc 0xFF);
          tmp = and (xor tmp (push_bit 4 tmp)) 0xFF
      in and (xor (xor (xor (drop_bit 8 crc) (push_bit 8 tmp)) (push_bit 3 tmp)) (drop_bit 4 tmp)) 0xFFFF)"

fun accumulate_string :: "pystr \<Rightarrow> int \<Rightarrow> int" where
  "accumulate_string [] crc = crc"
| "accumulate_string (char # s) crc = accumulate_string s (accumulate_byte (int char) crc)"

subsection \<open>Type strings\<close>

text \<open>
  \<open>TYPE_BITS\<close> is the module's dictionary from base type names to widths in bits.
\<close>

definition TYPE_BITS :: "pystr \<rightharpoonup> int" where
  "TYPE_BITS = map_of
     [(str ''int8_t'', 8), (str ''uint8_t'', 8), (str ''char'', 8),
      (str ''int16_t'', 16), (str ''uint16_t'', 16),
      (str ''int32_t'', 32), (str ''uint32_t'', 32), (str ''float'', 32),
      (str ''int64_t'', 64), (str ''uint64_t'', 64), (str ''double'', 64)]"

definition lbracket :: nat where "lbracket = of_char CHR ''[''"
definition rbracket :: nat where "rbracket = of_char CHR '']''"

text \<open>\<open>type_str.split('[')[0]\<close> is the text before the first \<open>[\<close>.\<close>

definition get_base_type :: "pystr \<Rightarrow> pystr" where
  "get_base_type type_str =
     (if type_str = str ''uint8_t_mavlink_version'' then str ''uint8_t''
      else if lbracket \<in> set type_str then takeWhile (\<lambda>c. c \<noteq> lbracket) type_str
      else type_str)"

text \<open>\<open>s.index(c)\<close>: the position of the first \<open>c\<close>, \<open>ValueError\<close> when there is none.\<close>

definition py_index :: "pystr \<Rightarrow> nat \<Rightarrow> py_error + nat" where
  "py_index s c = (if c \<in> set s then Inr (length (takeWhile (\<lambda>d. d \<noteq> c) s)) else Inl ValueError)"

text \<open>
  \<open>int(s)\<close> on text, base 10: surrounding whitespace is dropped, one sign is allowed,
  then decimal digits, where single underscores may separate digits. Anything else is
  a \<open>ValueError\<close>, and so is text of more than \<open>int_max_str_digits\<close> digits (the
  default of \<open>sys.get_int_max_str_digits()\<close>). The model covers ASCII text: the
  whitespace is the space and the code points 9 to 13, the digits are \<open>0\<close> to \<open>9\<close>.
  The digits and spaces beyond ASCII that \<open>int()\<close> also accepts are not modelled; the
  module's type strings are ASCII.
\<close>

definition int_max_str_digits :: nat where
  "int_max_str_digits = 4300"

definition is_space :: "nat \<Rightarrow> bool" where
  "is_space c = (c = 32 \<or> (9 \<le> c \<and> c \<le> 13))"

definition is_digit :: "nat \<Rightarrow> bool" where
  "is_digit c = (48 \<le> c \<and> c \<le> 57)"

fun parse_digits :: "pystr \<Rightarrow> int \<Rightarrow> py_error + int" where
  "parse_digits [] acc = Inr acc"
| "parse_digits (c # s) acc =
     (if is_digit c then parse_digits s (10 * acc + (int c - 48))
      else if c = 95 \<and> s \<noteq> [] \<and> is_digit (hd s) then parse_digits s acc
      else Inl ValueError)"

definition parse_unsigned :: "pystr \<Rightarrow> py_error + int" where
  "parse_unsigned s =
     (case s of [] \<Rightarrow> Inl ValueError
      | c # _ \<Rightarrow>
          if is_digit c then
            (if length (filter is_digit s) > int_max_str_digits then Inl ValueError
             else parse_digits s 0)
          else Inl ValueError)"

definition py_int :: "pystr \<Rightarrow> py_error + int" where
  "py_int s =
     (case rev (dropWhile is_space (rev (dropWhile is_space s))) of
        [] \<Rightarrow> Inl ValueError
      | c # t \<Rightarrow>
          if c = 45 then (case parse_unsigned t of Inl e \<Rightarrow> Inl e | Inr n \<Rightarrow> Inr (- n))
          else if c = 43 then parse_unsigned t
          else parse_unsigned (c # t))"

text \<open>
  \<open>type_str[start:end]\<close> with both bounds non-negative is
  \<open>drop start (take end type_str)\<close>: empty when \<open>end \<le> start\<close>.
\<close>

definition get_array_length :: "pystr \<Rightarrow> py_error + int" where
  "get_array_length type_str =
     (if lbracket \<in> set type_str then
        (case py_index type_str lbracket of Inl e \<Rightarrow> Inl e
         | Inr i \<Rightarrow>
            (let start = i + 1 in
             case py_index type_str rbracket of Inl e \<Rightarrow> Inl e
             | Inr end \<Rightarrow> py_int (drop start (take end type_str))))
      else Inr 1)"

text \<open>\<open>TYPE_BITS.get(base_type, 8)\<close>: a missing key gives the default 8.\<close>

definition get_type_bits :: "pystr \<Rightarrow> int" where
  "get_type_bits type_str =
     (let base_type = get_base_type type_str
      in case TYPE_BITS base_type of None \<Rightarrow> 8 | Some b \<Rightarrow> b)"

definition get_type_size :: "pystr \<Rightarrow> int" where
  "get_type_size type_str = get_type_bits type_str div 8"

subsection \<open>Fields and their canonical order\<close>

text \<open>
  A field is a dictionary with the keys \<open>name\<close>, \<open>type\<close> and, optionally,
  \<open>extension\<close>: the code reads it with \<open>f.get('extension', False)\<close>.
\<close>

record field =
  name :: pystr
  type :: pystr
  extension :: "bool option"

definition is_extension :: "'a field_scheme \<Rightarrow> bool" where
  "is_extension f = (case extension f of None \<Rightarrow> False | Some b \<Rightarrow> b)"

text \<open>
  \<open>list.sort(key=k, reverse=True)\<close> reverses the list, sorts it stably in ascending
  order of the key and reverses it again; \<open>sort_key\<close> is a stable insertion sort.
\<close>

definition sort_reverse :: "('a \<Rightarrow> int) \<Rightarrow> 'a list \<Rightarrow> 'a list" where
  "sort_reverse k xs = rev (sort_key k (rev xs))"

definition order_fields_for_serialization :: "field list \<Rightarrow> field list" where
  "order_fields_for_serialization flds =
     (let non_extension = filter (\<lambda>f. \<not> is_extension f) flds;
          extension = filter is_extension flds;
          non_extension = sort_reverse (\<lambda>f. get_type_bits (type f)) non_extension
      in non_extension @ extension)"

subsection \<open>The definition checksum\<close>

text \<open>The loop of \<open>calculate_crc_extra\<close> over the ordered fields, with the running CRC.\<close>

fun crc_fields :: "field list \<Rightarrow> int \<Rightarrow> py_error + int" where
  "crc_fields [] crc = Inr crc"
| "crc_fields (f # ordered_fields) crc =
     (if is_extension f then crc_fields ordered_fields crc
      else
        (let base_type = get_base_type (type f);
             crc = accumulate_string (base_type @ str '' '') crc;
             crc = accumulate_string (name f @ str '' '') crc
         in case get_array_length (type f) of
              Inl e \<Rightarrow> Inl e
            | Inr array_length \<Rightarrow>
                crc_fields ordered_fields
                  (if array_length > 1 then accumulate_byte array_length crc else crc)))"

definition calculate_crc_extra :: "pystr \<Rightarrow> field list \<Rightarrow> py_error + int" where
  "calculate_crc_extra message_name flds =
     (let crc = accumulate_string (message_name @ str '' '') 0xFFFF;
          ordered_fields = order_fields_for_serialization flds
      in case crc_fields ordered_fields crc of
           Inl e \<Rightarrow> Inl e
         | Inr crc \<Rightarrow> Inr (xor (and crc 0xFF) (drop_bit 8 crc)))"

subsection \<open>The layout\<close>

text \<open>
  \<open>calculate_field_offsets\<close> copies each field's dictionary and adds the keys
  \<open>offset\<close>, \<open>size\<close>, \<open>array_length\<close> and \<open>base_type\<close>. Its loop carries the
  running offset (\<open>cursor\<close>) and the result list; \<open>offsets_loop\<close> returns both at the end.
\<close>

record resolved_field = field +
  offset :: int
  size_f :: int
  array_length :: int
  base_type :: pystr

fun offsets_loop ::
  "field list \<Rightarrow> int \<Rightarrow> resolved_field list \<Rightarrow> py_error + (resolved_field list \<times> int)" where
  "offsets_loop [] cursor result = Inr (result, cursor)"
| "offsets_loop (f # ordered) cursor result =
     (let base = get_base_type (type f);
          size = get_type_size (type f)
      in case get_array_length (type f) of
           Inl e \<Rightarrow> Inl e
         | Inr len \<Rightarrow>
             (let new_field = \<lparr>name = name f, type = type f, extension = extension f,
                    offset = cursor, size_f = size, array_length = len, base_type = base\<rparr>
              in offsets_loop ordered (cursor + size * len) (result @ [new_field])))"

definition calculate_field_offsets :: "field list \<Rightarrow> py_error + resolved_field list" where
  "calculate_field_offsets flds =
     (let ordered = order_fields_for_serialization flds
      in case offsets_loop ordered 0 [] of
           Inl e \<Rightarrow> Inl e
         | Inr (result, cursor) \<Rightarrow> Inr result)"

subsection \<open>The module's test data\<close>

definition fld :: "string \<Rightarrow> string \<Rightarrow> bool \<Rightarrow> field" where
  "fld n t e = \<lparr>name = str n, type = str t, extension = Some e\<rparr>"

definition heartbeat_fields :: "field list" where
  "heartbeat_fields =
     [fld ''type'' ''uint8_t'' False,
      fld ''autopilot'' ''uint8_t'' False,
      fld ''base_mode'' ''uint8_t'' False,
      fld ''custom_mode'' ''uint32_t'' False,
      fld ''system_status'' ''uint8_t'' False,
      fld ''mavlink_version'' ''uint8_t_mavlink_version'' False]"

definition sys_status_core :: "field list" where
  "sys_status_core =
     [fld ''onboard_control_sensors_present'' ''uint32_t'' False,
      fld ''onboard_control_sensors_enabled'' ''uint32_t'' False,
      fld ''onboard_control_sensors_health'' ''uint32_t'' False,
      fld ''load'' ''uint16_t'' False,
      fld ''voltage_battery'' ''uint16_t'' False,
      fld ''current_battery'' ''int16_t'' False,
      fld ''battery_remaining'' ''int8_t'' False,
      fld ''drop_rate_comm'' ''uint16_t'' False,
      fld ''errors_comm'' ''uint16_t'' False,
      fld ''errors_count1'' ''uint16_t'' False,
      fld ''errors_count2'' ''uint16_t'' False,
      fld ''errors_count3'' ''uint16_t'' False,
      fld ''errors_count4'' ''uint16_t'' False]"

definition sys_status_fields :: "field list" where
  "sys_status_fields = sys_status_core @
     [fld ''onboard_control_sensors_present_extended'' ''uint32_t'' True,
      fld ''onboard_control_sensors_enabled_extended'' ''uint32_t'' True,
      fld ''onboard_control_sensors_health_extended'' ''uint32_t'' True]"

subsection \<open>Notions used in the properties\<close>

definition field_bits :: "'a field_scheme \<Rightarrow> int" where
  "field_bits f = get_type_bits (type f)"

text \<open>
  \<open>perm\<close> keeps the relative order that \<open>flds\<close> gives to the non-extension fields of
  each bit width, and to the extension fields.
\<close>

definition same_relative_order :: "field list \<Rightarrow> field list \<Rightarrow> bool" where
  "same_relative_order flds perm =
     ((\<forall>w \<in> set (map field_bits (flds @ perm)).
         filter (\<lambda>f. \<not> is_extension f \<and> field_bits f = w) perm =
         filter (\<lambda>f. \<not> is_extension f \<and> field_bits f = w) flds) \<and>
      filter is_extension perm = filter is_extension flds)"

text \<open>The number that a text of decimal digits denotes.\<close>

definition digits_value :: "pystr \<Rightarrow> int" where
  "digits_value ds = foldl (\<lambda>acc c. 10 * acc + (int c - 48)) 0 ds"

text \<open>
  The number of bytes a laid-out field adds to the cursor, \<open>size * array_length\<close>, and
  the bytes it occupies, \<open>[offset, offset + size * array_length)\<close>.
\<close>

definition field_width :: "resolved_field \<Rightarrow> int" where
  "field_width r = size_f r * array_length r"

definition field_range :: "resolved_field \<Rightarrow> int set" where
  "field_range r = {offset r ..< offset r + field_width r}"

section \<open>Properties\<close>

subsection \<open>The accumulator\<close>

lemma and_255_byte: "0 \<le> b \<Longrightarrow> b \<le> 255 \<Longrightarrow> and b (255::int) = b"
proof -
  assume "0 \<le> b" "b \<le> 255"
  then have "take_bit 8 b = b" by (simp add: take_bit_int_eq_self)
  moreover have "and b 255 = take_bit 8 b"
    using take_bit_eq_mask [of 8 b] by (simp add: mask_eq_exp_minus_1)
  ultimately show ?thesis by simp
qed

lemma and_255_mod: "and b (255::int) = b mod 256"
  using take_bit_eq_mask [of 8 b] by (simp add: mask_eq_exp_minus_1 take_bit_eq_mod)

lemma crc16_step_accumulate_byte:
  "0 \<le> b \<Longrightarrow> b \<le> 255 \<Longrightarrow> crc16_step b crc = accumulate_byte b crc"
  by (simp add: crc16_step_def accumulate_byte_def and_255_byte)

text \<open>
  C8. On a sequence of bytes (integers from 0 to 255), \<open>crc16_mcrf4xx\<close> started in any
  state is the left fold of \<open>accumulate_byte\<close> over the sequence, in order, from that
  state: the loop body and \<open>accumulate_byte\<close> agree on every byte.
\<close>

theorem crc16_mcrf4xx_is_fold:
  "\<forall>b\<in>set data. 0 \<le> b \<and> b \<le> 255 \<Longrightarrow> crc16_mcrf4xx data crc = fold accumulate_byte data crc"
proof (induction data arbitrary: crc)
  case Nil
  show ?case by simp
next
  case (Cons b data)
  then have "crc16_step b crc = accumulate_byte b crc"
    by (simp add: crc16_step_accumulate_byte)
  with Cons show ?case by simp
qed

theorem crc16_mcrf4xx_is_fold_witness:
  "crc16_mcrf4xx [72, 0, 255] 0xFFFF = fold accumulate_byte [72, 0, 255] 0xFFFF \<and>
   crc16_mcrf4xx [72, 0, 255] 0xFFFF = 63231"
  using crc16_mcrf4xx_is_fold [of "[72, 0, 255]" "0xFFFF"]
  by (simp add: accumulate_byte_def)

lemma accumulate_byte_mod: "accumulate_byte b crc = accumulate_byte (b mod 256) crc"
  by (simp add: accumulate_byte_def and_255_mod)

text \<open>
  C10. For every integer \<open>b\<close>, also outside 0..255, and every state,
  \<open>accumulate_byte b crc\<close> is \<open>accumulate_byte (b mod 256) crc\<close>; hence
  \<open>accumulate_string\<close> truncates every code point of its text to the low 8 bits and
  rejects none.
\<close>

theorem accumulate_byte_masks_argument:
  "accumulate_byte b crc = accumulate_byte (b mod 256) crc \<and>
   accumulate_string s crc = accumulate_string (map (\<lambda>c. c mod 256) s) crc"
proof
  show "accumulate_byte b crc = accumulate_byte (b mod 256) crc"
    by (rule accumulate_byte_mod)
  show "accumulate_string s crc = accumulate_string (map (\<lambda>c. c mod 256) s) crc"
  proof (induction s arbitrary: crc)
    case Nil
    show ?case by simp
  next
    case (Cons c s)
    have "accumulate_byte (int c) crc = accumulate_byte (int (c mod 256)) crc"
      using accumulate_byte_mod [of "int c" crc] by (simp add: zmod_int)
    with Cons show ?case by simp
  qed
qed

subsection \<open>Reference checksums\<close>

text \<open>
  C1. The checksum of HEARTBEAT over its six fields in declaration order is 50.
\<close>

theorem heartbeat_crc_extra:
  "calculate_crc_extra (str ''HEARTBEAT'') heartbeat_fields = Inr 50"
  by code_simp

subsection \<open>The canonical order\<close>

lemma mset_sort_reverse: "mset (sort_reverse k xs) = mset xs"
  by (simp add: sort_reverse_def)

lemma set_sort_reverse: "set (sort_reverse k xs) = set xs"
  by (simp add: sort_reverse_def)

lemma sorted_sort_reverse: "sorted_wrt (\<lambda>a b. k b \<le> k a) (sort_reverse k xs)"
proof -
  have "sorted (map k (sort_key k (rev xs)))" by simp
  then have "sorted_wrt (\<lambda>a b. k a \<le> k b) (sort_key k (rev xs))"
    by (simp only: sorted_map)
  then show ?thesis by (simp add: sort_reverse_def sorted_wrt_rev)
qed

lemma sort_reverse_stable:
  "filter (\<lambda>y. k y = w) (sort_reverse k xs) = filter (\<lambda>y. k y = w) xs"
proof -
  have "filter (\<lambda>y. k y = w) (sort_reverse k xs) = rev (filter (\<lambda>y. k y = w) (sort_key k (rev xs)))"
    by (simp add: sort_reverse_def rev_filter)
  also have "\<dots> = rev (filter (\<lambda>y. k y = w) (rev xs))"
    by (simp only: sort_key_stable)
  also have "\<dots> = filter (\<lambda>y. k y = w) xs"
    by (simp add: rev_filter)
  finally show ?thesis .
qed

lemma sort_key_by_classes:
  assumes "\<And>w. filter (\<lambda>y. k y = w) xs = filter (\<lambda>y. k y = w) ys"
  shows "sort_key k xs = sort_key k ys"
proof (rule properties_for_sort_key)
  show "mset (sort_key k ys) = mset xs"
  proof (rule multiset_eqI)
    fix x
    have "count (mset xs) x = count (mset (filter (\<lambda>y. k y = k x) xs)) x" by simp
    also have "\<dots> = count (mset (filter (\<lambda>y. k y = k x) ys)) x" by (simp only: assms)
    also have "\<dots> = count (mset ys) x" by simp
    finally show "count (mset (sort_key k ys)) x = count (mset xs) x" by simp
  qed
next
  fix z
  have "filter (\<lambda>x. k z = k x) (sort_key k ys) = filter (\<lambda>x. k x = k z) (sort_key k ys)"
    by (rule filter_cong) auto
  also have "\<dots> = filter (\<lambda>x. k x = k z) ys" by (rule sort_key_stable)
  also have "\<dots> = filter (\<lambda>x. k x = k z) xs" by (simp only: assms)
  also have "\<dots> = filter (\<lambda>x. k z = k x) xs" by (rule filter_cong) auto
  finally show "filter (\<lambda>x. k z = k x) (sort_key k ys) = filter (\<lambda>x. k z = k x) xs" .
next
  show "sorted (map k (sort_key k ys))" by simp
qed

lemma sort_reverse_by_classes:
  assumes "\<And>w. filter (\<lambda>y. k y = w) xs = filter (\<lambda>y. k y = w) ys"
  shows "sort_reverse k xs = sort_reverse k ys"
proof -
  have "\<And>w. filter (\<lambda>y. k y = w) (rev xs) = filter (\<lambda>y. k y = w) (rev ys)"
    by (simp add: rev_filter [symmetric] assms)
  then have "sort_key k (rev xs) = sort_key k (rev ys)"
    by (rule sort_key_by_classes)
  then show ?thesis by (simp add: sort_reverse_def)
qed

lemma filter_all: "\<forall>x\<in>set xs. P x \<Longrightarrow> filter P xs = xs"
  by (induction xs) auto

lemma filter_none: "\<forall>x\<in>set xs. \<not> P x \<Longrightarrow> filter P xs = []"
  by (induction xs) auto

lemma order_filter_extension:
  "filter is_extension (order_fields_for_serialization flds) = filter is_extension flds"
proof -
  have "filter is_extension (sort_reverse (\<lambda>f. get_type_bits (type f)) (filter (\<lambda>f. \<not> is_extension f) flds)) = []"
    by (rule filter_none) (simp add: set_sort_reverse)
  then show ?thesis by (simp add: order_fields_for_serialization_def)
qed

lemma order_filter_non_extension:
  "filter (\<lambda>f. \<not> is_extension f) (order_fields_for_serialization flds) =
   sort_reverse (\<lambda>f. get_type_bits (type f)) (filter (\<lambda>f. \<not> is_extension f) flds)"
proof -
  have "filter (\<lambda>f. \<not> is_extension f) (sort_reverse (\<lambda>f. get_type_bits (type f)) (filter (\<lambda>f. \<not> is_extension f) flds))
        = sort_reverse (\<lambda>f. get_type_bits (type f)) (filter (\<lambda>f. \<not> is_extension f) flds)"
    by (rule filter_all) (simp add: set_sort_reverse)
  then show ?thesis by (simp add: order_fields_for_serialization_def)
qed

lemma order_split:
  "order_fields_for_serialization flds =
   filter (\<lambda>f. \<not> is_extension f) (order_fields_for_serialization flds) @ filter is_extension flds"
  by (simp only: order_filter_non_extension) (simp add: order_fields_for_serialization_def)

text \<open>
  C3. \<open>order_fields_for_serialization\<close> returns the non-extension fields first and then
  the extension fields in their declaration order; it is a permutation of its input; the
  non-extension part is in descending bit width; and the non-extension fields of each
  width stand in their declaration order (the sort is stable).
\<close>

theorem order_fields_stable_descending:
  "order_fields_for_serialization flds =
     filter (\<lambda>f. \<not> is_extension f) (order_fields_for_serialization flds) @ filter is_extension flds \<and>
   mset (order_fields_for_serialization flds) = mset flds \<and>
   sorted_wrt (\<lambda>a b. field_bits b \<le> field_bits a)
     (filter (\<lambda>f. \<not> is_extension f) (order_fields_for_serialization flds)) \<and>
   (\<forall>w. filter (\<lambda>f. field_bits f = w) (filter (\<lambda>f. \<not> is_extension f) (order_fields_for_serialization flds)) =
        filter (\<lambda>f. field_bits f = w) (filter (\<lambda>f. \<not> is_extension f) flds))"
proof (intro conjI allI)
  show "order_fields_for_serialization flds =
     filter (\<lambda>f. \<not> is_extension f) (order_fields_for_serialization flds) @ filter is_extension flds"
    by (rule order_split)
  have "mset (order_fields_for_serialization flds) =
        mset (filter (\<lambda>f. \<not> is_extension f) flds) + mset (filter is_extension flds)"
    by (simp add: order_fields_for_serialization_def mset_sort_reverse)
  also have "\<dots> = mset flds"
    by (induction flds) auto
  finally show "mset (order_fields_for_serialization flds) = mset flds" .
  show "sorted_wrt (\<lambda>a b. field_bits b \<le> field_bits a)
     (filter (\<lambda>f. \<not> is_extension f) (order_fields_for_serialization flds))"
    unfolding order_filter_non_extension field_bits_def
    by (rule sorted_sort_reverse)
  fix w
  show "filter (\<lambda>f. field_bits f = w) (filter (\<lambda>f. \<not> is_extension f) (order_fields_for_serialization flds)) =
        filter (\<lambda>f. field_bits f = w) (filter (\<lambda>f. \<not> is_extension f) flds)"
    unfolding order_filter_non_extension field_bits_def
    by (rule sort_reverse_stable)
qed

subsection \<open>Extension fields and the checksum\<close>

lemma crc_fields_extension_only:
  "\<forall>f\<in>set es. is_extension f \<Longrightarrow> crc_fields es crc = Inr crc"
  by (induction es) auto

lemma crc_fields_append_extension:
  "\<forall>f\<in>set es. is_extension f \<Longrightarrow> crc_fields (xs @ es) crc = crc_fields xs crc"
proof (induction xs arbitrary: crc)
  case Nil
  then show ?case by (simp add: crc_fields_extension_only)
next
  case (Cons x xs)
  then show ?case by (simp add: Let_def split: sum.splits)
qed

lemma crc_fields_order:
  "crc_fields (order_fields_for_serialization flds) crc =
   crc_fields (sort_reverse (\<lambda>f. get_type_bits (type f)) (filter (\<lambda>f. \<not> is_extension f) flds)) crc"
  by (simp add: order_fields_for_serialization_def crc_fields_append_extension)

lemma calculate_crc_extra_non_extension:
  "calculate_crc_extra n flds = calculate_crc_extra n (filter (\<lambda>f. \<not> is_extension f) flds)"
  by (simp add: calculate_crc_extra_def crc_fields_order)

lemma calculate_crc_extra_append_extension:
  "\<forall>f\<in>set es. is_extension f \<Longrightarrow> calculate_crc_extra n (xs @ es) = calculate_crc_extra n xs"
proof -
  assume "\<forall>f\<in>set es. is_extension f"
  then have "filter (\<lambda>f. \<not> is_extension f) es = []" by (induction es) auto
  then have "filter (\<lambda>f. \<not> is_extension f) (xs @ es) = filter (\<lambda>f. \<not> is_extension f) xs" by simp
  then show ?thesis
    using calculate_crc_extra_non_extension [of n "xs @ es"] calculate_crc_extra_non_extension [of n xs]
    by simp
qed

lemma sys_status_core_crc: "calculate_crc_extra (str ''SYS_STATUS'') sys_status_core = Inr 124"
  by code_simp

text \<open>
  C2. The checksum of SYS\_STATUS over its sixteen fields (thirteen non-extension fields
  and three extension fields) is 124, and it stays 124 when the three extension fields
  are replaced by any list of extension fields: renamed, retyped, fewer or none.
\<close>

theorem sys_status_crc_extra:
  "calculate_crc_extra (str ''SYS_STATUS'') sys_status_fields = Inr 124 \<and>
   ((\<forall>f\<in>set es. is_extension f) \<longrightarrow>
      calculate_crc_extra (str ''SYS_STATUS'') (sys_status_core @ es) = Inr 124)"
proof
  have "\<forall>f\<in>set (drop 13 sys_status_fields). is_extension f"
    by (simp add: sys_status_fields_def sys_status_core_def fld_def is_extension_def)
  moreover have "sys_status_fields = sys_status_core @ drop 13 sys_status_fields"
    by (simp add: sys_status_fields_def sys_status_core_def)
  ultimately show "calculate_crc_extra (str ''SYS_STATUS'') sys_status_fields = Inr 124"
    using calculate_crc_extra_append_extension [of "drop 13 sys_status_fields" "str ''SYS_STATUS''" sys_status_core]
    by (simp add: sys_status_core_crc)
  show "(\<forall>f\<in>set es. is_extension f) \<longrightarrow>
      calculate_crc_extra (str ''SYS_STATUS'') (sys_status_core @ es) = Inr 124"
    by (simp add: calculate_crc_extra_append_extension sys_status_core_crc)
qed

theorem sys_status_crc_extra_witness:
  "is_extension (fld ''renamed'' ''uint32_t'' True) \<and>
   calculate_crc_extra (str ''SYS_STATUS'') (sys_status_core @ [fld ''renamed'' ''uint32_t'' True]) = Inr 124 \<and>
   calculate_crc_extra (str ''SYS_STATUS'') (sys_status_core @ []) = Inr 124"
  using sys_status_crc_extra [of "[fld ''renamed'' ''uint32_t'' True]"] sys_status_crc_extra [of "[]"]
  by (simp add: fld_def is_extension_def)

text \<open>
  C9. On an empty field list \<open>calculate_crc_extra\<close> returns, without error, the 8-bit
  fold of the state reached by the message name and a space; a field list of extension
  fields only gives the same value as the empty list.
\<close>

theorem crc_extra_without_checksummed_fields:
  "calculate_crc_extra n [] =
     Inr (xor (and (accumulate_string (n @ str '' '') 0xFFFF) 0xFF)
              (drop_bit 8 (accumulate_string (n @ str '' '') 0xFFFF))) \<and>
   ((\<forall>f\<in>set flds. is_extension f) \<longrightarrow> calculate_crc_extra n flds = calculate_crc_extra n [])"
proof
  show "calculate_crc_extra n [] =
     Inr (xor (and (accumulate_string (n @ str '' '') 0xFFFF) 0xFF)
              (drop_bit 8 (accumulate_string (n @ str '' '') 0xFFFF)))"
    by (simp add: calculate_crc_extra_def order_fields_for_serialization_def sort_reverse_def Let_def)
  show "(\<forall>f\<in>set flds. is_extension f) \<longrightarrow> calculate_crc_extra n flds = calculate_crc_extra n []"
    using calculate_crc_extra_append_extension [of flds n "[]"] by simp
qed

theorem crc_extra_without_checksummed_fields_witness:
  "is_extension (fld ''e1'' ''uint32_t'' True) \<and> is_extension (fld ''e2'' ''float[4]'' True) \<and>
   calculate_crc_extra (str ''M'') [fld ''e1'' ''uint32_t'' True, fld ''e2'' ''float[4]'' True] =
     calculate_crc_extra (str ''M'') [] \<and>
   calculate_crc_extra (str ''M'') [] = Inr 131"
proof -
  have "calculate_crc_extra (str ''M'') [] = Inr 131" by code_simp
  then show ?thesis
    using crc_extra_without_checksummed_fields
      [of "str ''M''" "[fld ''e1'' ''uint32_t'' True, fld ''e2'' ''float[4]'' True]"]
    by (simp add: fld_def is_extension_def)
qed

subsection \<open>Unknown base types and array lengths below one\<close>

text \<open>
  C5, as stated, fails: the base type \<open>foo\<close> is not a key of \<open>TYPE_BITS\<close>, yet
  \<open>get_type_bits\<close> returns the width 8 and \<open>get_type_size\<close> the size 1, and both
  the checksum and the layout of a message with such a field are computed without error.
\<close>

theorem unknown_base_type_counterexample:
  "TYPE_BITS (get_base_type (str ''foo'')) = None \<and>
   get_type_bits (str ''foo'') = 8 \<and>
   get_type_size (str ''foo'') = 1 \<and>
   calculate_crc_extra (str ''M'') [fld ''x'' ''foo'' False] = Inr 164 \<and>
   calculate_field_offsets [fld ''x'' ''foo'' False] =
     Inr [\<lparr>name = str ''x'', type = str ''foo'', extension = Some False,
           offset = 0, size_f = 1, array_length = 1, base_type = str ''foo''\<rparr>]"
  by code_simp

text \<open>
  C5, amended. For every type string whose base type is not a key of \<open>TYPE_BITS\<close>,
  \<open>get_type_bits\<close> returns 8 and \<open>get_type_size\<close> returns 1: the default of
  \<open>TYPE_BITS.get(base_type, 8)\<close>.
\<close>

theorem unknown_base_type_defaults:
  "TYPE_BITS (get_base_type type_str) = None \<Longrightarrow>
   get_type_bits type_str = 8 \<and> get_type_size type_str = 1"
  by (simp add: get_type_size_def get_type_bits_def)

theorem unknown_base_type_defaults_witness:
  "TYPE_BITS (get_base_type (str ''bool[3]'')) = None \<and>
   get_type_bits (str ''bool[3]'') = 8 \<and> get_type_size (str ''bool[3]'') = 1"
proof -
  have h: "TYPE_BITS (get_base_type (str ''bool[3]'')) = None"
    by code_simp
  show ?thesis using h unknown_base_type_defaults [OF h] by simp
qed

text \<open>
  C6, as stated, fails: \<open>get_array_length\<close> returns 0 for \<open>uint8_t[0]\<close>; the checksum
  of a message with such a field is computed (81, where the message without fields has
  131), and the layout lists the field with \<open>array_length\<close> 0.
\<close>

theorem nonpositive_array_length_counterexample:
  "get_array_length (str ''uint8_t[0]'') = Inr 0 \<and>
   calculate_crc_extra (str ''M'') [fld ''a'' ''uint8_t[0]'' False] = Inr 81 \<and>
   calculate_crc_extra (str ''M'') [] = Inr 131 \<and>
   calculate_field_offsets [fld ''a'' ''uint8_t[0]'' False] =
     Inr [\<lparr>name = str ''a'', type = str ''uint8_t[0]'', extension = Some False,
           offset = 0, size_f = 1, array_length = 0, base_type = str ''uint8_t''\<rparr>]"
  by code_simp

lemma parse_digits_all_digits:
  "list_all is_digit ds \<Longrightarrow>
   parse_digits ds acc = Inr (foldl (\<lambda>acc c. 10 * acc + (int c - 48)) acc ds)"
  by (induction ds arbitrary: acc) simp_all

lemma parse_unsigned_digits:
  assumes "ds \<noteq> []" and "list_all is_digit ds" and "length ds \<le> int_max_str_digits"
  shows "parse_unsigned ds = Inr (digits_value ds)"
proof -
  from assms(1) obtain c cs where ds: "ds = c # cs" by (cases ds) auto
  with assms(2) have c: "is_digit c" by simp
  have "filter is_digit ds = ds"
    using assms(2) by (simp add: list_all_iff)
  with assms(3) have "\<not> length (filter is_digit ds) > int_max_str_digits" by simp
  with c ds have "parse_unsigned ds = parse_digits ds 0"
    by (simp add: parse_unsigned_def)
  then show ?thesis
    using assms(2) by (simp add: parse_digits_all_digits digits_value_def)
qed

lemma strip_spaces:
  assumes "list_all is_space ws1" and "list_all is_space ws2"
    and "core \<noteq> []" and "\<not> is_space (hd core)" and "\<not> is_space (last core)"
  shows "rev (dropWhile is_space (rev (dropWhile is_space (ws1 @ core @ ws2)))) = core"
proof -
  have "dropWhile is_space (ws1 @ core @ ws2) = dropWhile is_space (core @ ws2)"
    using assms(1) by (intro dropWhile_append2) (simp add: list_all_iff)
  also have "\<dots> = core @ ws2"
    using assms(3,4) by (cases core) simp_all
  finally have 1: "dropWhile is_space (ws1 @ core @ ws2) = core @ ws2" .
  have "dropWhile is_space (rev ws2 @ rev core) = dropWhile is_space (rev core)"
    using assms(2) by (intro dropWhile_append2) (simp add: list_all_iff)
  also have "\<dots> = rev core"
    using assms(3,5) by (cases "rev core") (simp_all add: hd_rev [symmetric])
  finally show ?thesis using 1 by simp
qed


lemma py_int_signed_digits:
  assumes ws: "list_all is_space ws1" "list_all is_space ws2"
    and sign: "sign = [] \<or> sign = [43] \<or> sign = [45]"
    and ds: "ds \<noteq> []" "list_all is_digit ds" "length ds \<le> int_max_str_digits"
  shows "py_int (ws1 @ sign @ ds @ ws2) =
         Inr (if sign = [45] then - digits_value ds else digits_value ds)"
proof -
  from ds(1) obtain c cs where c: "ds = c # cs" by (cases ds) auto
  with ds(2) have dc: "is_digit c" by simp
  have "is_digit (last ds)" using ds(1,2) by (simp add: list_all_iff)
  then have l: "\<not> is_space (last (sign @ ds))"
    using ds(1) by (auto simp: is_digit_def is_space_def)
  have h: "\<not> is_space (hd (sign @ ds))"
    using sign dc c by (auto simp: is_digit_def is_space_def)
  have "rev (dropWhile is_space (rev (dropWhile is_space (ws1 @ (sign @ ds) @ ws2)))) = sign @ ds"
    using ws ds(1) h l by (intro strip_spaces) simp_all
  then have strip: "rev (dropWhile is_space (rev (dropWhile is_space (ws1 @ sign @ ds @ ws2)))) = sign @ ds"
    by simp
  have pu: "parse_unsigned ds = Inr (digits_value ds)"
    using ds by (rule parse_unsigned_digits)
  have c45: "c \<noteq> 45" and c43: "c \<noteq> 43" using dc by (auto simp: is_digit_def)
  from sign show ?thesis
  proof (elim disjE)
    assume "sign = []"
    with strip c c45 c43 pu show ?thesis by (simp add: py_int_def)
  next
    assume "sign = [43]"
    with strip pu show ?thesis by (simp add: py_int_def)
  next
    assume "sign = [45]"
    with strip pu show ?thesis by (simp add: py_int_def)
  qed
qed

lemma takeWhile_until:
  "c \<notin> set xs \<Longrightarrow> takeWhile (\<lambda>d. d \<noteq> c) (xs @ c # ys) = xs"
  by (induction xs) auto

lemma bracket_codes: "lbracket \<noteq> rbracket"
  by (simp add: lbracket_def rbracket_def)

lemma get_array_length_bracketed:
  assumes "lbracket \<notin> set base" and "rbracket \<notin> set base" and "rbracket \<notin> set txt"
  shows "get_array_length (base @ [lbracket] @ txt @ [rbracket] @ rest) = py_int txt"
proof -
  let ?t = "base @ [lbracket] @ txt @ [rbracket] @ rest"
  have "takeWhile (\<lambda>d. d \<noteq> lbracket) ?t = base"
    using assms(1) by (simp add: takeWhile_until)
  then have i: "py_index ?t lbracket = Inr (length base)"
    by (simp add: py_index_def)
  have "rbracket \<notin> set (base @ [lbracket] @ txt)"
    using assms(2,3) bracket_codes by auto
  then have "takeWhile (\<lambda>d. d \<noteq> rbracket) ((base @ [lbracket] @ txt) @ rbracket # rest) = base @ [lbracket] @ txt"
    by (rule takeWhile_until)
  then have "takeWhile (\<lambda>d. d \<noteq> rbracket) ?t = base @ [lbracket] @ txt" by simp
  then have "length (takeWhile (\<lambda>d. d \<noteq> rbracket) ?t) = length base + 1 + length txt"
    by simp
  then have e: "py_index ?t rbracket = Inr (length base + 1 + length txt)"
    by (simp add: py_index_def)
  have "take (length base + 1 + length txt) ((base @ [lbracket] @ txt) @ [rbracket] @ rest) = base @ [lbracket] @ txt"
    by (subst take_append) simp
  then have "take (length base + 1 + length txt) ?t = base @ [lbracket] @ txt" by simp
  then have "drop (length base + 1) (take (length base + 1 + length txt) ?t) = txt"
    by simp
  moreover have "lbracket \<in> set ?t" by simp
  ultimately show ?thesis
    using i e by (simp add: get_array_length_def Let_def)
qed

lemma get_base_type_bracketed:
  assumes "lbracket \<notin> set base"
  shows "get_base_type (base @ [lbracket] @ after) = base"
proof -
  have "lbracket \<notin> set (str ''uint8_t_mavlink_version'')"
    by (simp add: str_def lbracket_def)
  then have "base @ [lbracket] @ after \<noteq> str ''uint8_t_mavlink_version''"
    by (metis in_set_conv_decomp append_Cons append_Nil)
  moreover have "takeWhile (\<lambda>c. c \<noteq> lbracket) (base @ [lbracket] @ after) = base"
    using assms by (simp add: takeWhile_until)
  ultimately show ?thesis by (simp add: get_base_type_def)
qed

text \<open>
  C6, amended. Take a field whose type string is a base without brackets followed by a
  bracketed decimal integer: optional ASCII whitespace, an optional sign, between one and
  \<open>int_max_str_digits\<close> ASCII digits, optional ASCII whitespace. When the integer
  \<open>n\<close> it denotes is at most 0, \<open>get_array_length\<close> returns \<open>n\<close>: no error is
  raised and \<open>n\<close> is not replaced by 1. A non-extension field of that type adds its
  base type and its name, each followed by a space, and no length byte to the checksum,
  and the layout lists the field with \<open>array_length = n\<close> and moves the cursor by
  \<open>size * n\<close>.
\<close>

theorem nonpositive_array_length_accepted:
  assumes "type f = base @ [lbracket] @ ws1 @ sign @ ds @ ws2 @ [rbracket] @ rest"
    and "lbracket \<notin> set base" and "rbracket \<notin> set base"
    and "list_all is_space ws1" and "list_all is_space ws2"
    and "sign = [] \<or> sign = [43] \<or> sign = [45]"
    and "ds \<noteq> []" and "list_all is_digit ds" and "length ds \<le> int_max_str_digits"
    and "n = (if sign = [45] then - digits_value ds else digits_value ds)"
    and "n \<le> 0"
  shows "get_array_length (type f) = Inr n \<and>
         get_base_type (type f) = base \<and>
         (\<not> is_extension f \<longrightarrow>
            crc_fields (f # fs) crc =
            crc_fields fs (accumulate_string (name f @ str '' '')
                            (accumulate_string (base @ str '' '') crc))) \<and>
         offsets_loop (f # fs) cursor result =
           offsets_loop fs (cursor + get_type_size (type f) * n)
             (result @ [\<lparr>name = name f, type = type f, extension = extension f,
                          offset = cursor, size_f = get_type_size (type f),
                          array_length = n, base_type = base\<rparr>])"
proof -
  have "rbracket \<notin> set ws1" "rbracket \<notin> set ws2"
    using assms(4,5) by (auto simp: list_all_iff is_space_def rbracket_def)
  moreover have "rbracket \<notin> set sign"
    using assms(6) by (auto simp: rbracket_def)
  moreover have "rbracket \<notin> set ds"
    using assms(8) by (auto simp: list_all_iff is_digit_def rbracket_def)
  ultimately have "rbracket \<notin> set (ws1 @ sign @ ds @ ws2)" by simp
  with assms(2,3)
  have "get_array_length (base @ [lbracket] @ (ws1 @ sign @ ds @ ws2) @ [rbracket] @ rest) =
        py_int (ws1 @ sign @ ds @ ws2)"
    by (rule get_array_length_bracketed)
  also have "\<dots> = Inr n"
    using py_int_signed_digits [OF assms(4-9)] assms(10) by simp
  finally have len: "get_array_length (type f) = Inr n"
    using assms(1) by simp
  have base: "get_base_type (type f) = base"
    using assms(1) get_base_type_bracketed [OF assms(2)] by simp
  have "\<not> 1 < n" using assms(11) by simp
  with len base
  have crc: "\<not> is_extension f \<longrightarrow>
            crc_fields (f # fs) crc =
            crc_fields fs (accumulate_string (name f @ str '' '')
                            (accumulate_string (base @ str '' '') crc))"
    by (simp add: Let_def)
  have lay: "offsets_loop (f # fs) cursor result =
           offsets_loop fs (cursor + get_type_size (type f) * n)
             (result @ [\<lparr>name = name f, type = type f, extension = extension f,
                          offset = cursor, size_f = get_type_size (type f),
                          array_length = n, base_type = base\<rparr>])"
    using len base by (simp add: Let_def)
  from len base crc lay show ?thesis by (intro conjI)
qed

theorem nonpositive_array_length_accepted_witness:
  "get_array_length (type (fld ''a'' ''uint8_t[-3]'' False)) = Inr (- 3) \<and>
   get_base_type (type (fld ''a'' ''uint8_t[-3]'' False)) = str ''uint8_t'' \<and>
   crc_fields [fld ''a'' ''uint8_t[-3]'' False] 0xFFFF =
     Inr (accumulate_string (str ''a '') (accumulate_string (str ''uint8_t '') 0xFFFF)) \<and>
   offsets_loop [fld ''a'' ''uint8_t[-3]'' False] 7 [] =
     Inr ([\<lparr>name = str ''a'', type = str ''uint8_t[-3]'', extension = Some False,
            offset = 7, size_f = 1, array_length = - 3, base_type = str ''uint8_t''\<rparr>], 4)"
proof -
  have t: "type (fld ''a'' ''uint8_t[-3]'' False) =
           str ''uint8_t'' @ [lbracket] @ [] @ [45] @ [51] @ [] @ [rbracket] @ []"
    by (simp add: fld_def str_def lbracket_def rbracket_def)
  have b: "lbracket \<notin> set (str ''uint8_t'')" "rbracket \<notin> set (str ''uint8_t'')"
    by (simp_all add: str_def lbracket_def rbracket_def)
  have w: "list_all is_space []" by simp
  have s: "[45::nat] = [] \<or> [45::nat] = [43] \<or> [45::nat] = [45]" by simp
  have d: "[51::nat] \<noteq> []" "list_all is_digit [51]" "length [51::nat] \<le> int_max_str_digits"
    by (simp_all add: is_digit_def int_max_str_digits_def)
  have n: "(- 3::int) = (if [45::nat] = [45] then - digits_value [51] else digits_value [51])"
    by (simp add: digits_value_def)
  have le: "(- 3::int) \<le> 0" by simp
  have e: "\<not> is_extension (fld ''a'' ''uint8_t[-3]'' False)"
    by (simp add: fld_def is_extension_def)
  have sz: "get_type_size (str ''uint8_t[-3]'') = 1" by code_simp
  have f: "name (fld ''a'' ''uint8_t[-3]'' False) = str ''a''"
    "type (fld ''a'' ''uint8_t[-3]'' False) = str ''uint8_t[-3]''"
    "extension (fld ''a'' ''uint8_t[-3]'' False) = Some False"
    by (simp_all add: fld_def)
  have a: "str ''a'' @ str '' '' = str ''a ''" "str ''uint8_t'' @ str '' '' = str ''uint8_t ''"
    by (simp_all add: str_def)
  show ?thesis
    using e nonpositive_array_length_accepted [OF t b w w s d n le, of "[]" "0xFFFF" 7 "[]"]
    by (simp only: f sz a) simp
qed

subsection \<open>The layout\<close>

lemma TYPE_BITS_values: "TYPE_BITS b = Some v \<Longrightarrow> v \<in> {8, 16, 32, 64}"
proof -
  assume "TYPE_BITS b = Some v"
  then have "(b, v) \<in> set
     [(str ''int8_t'', 8), (str ''uint8_t'', 8), (str ''char'', 8),
      (str ''int16_t'', 16), (str ''uint16_t'', 16),
      (str ''int32_t'', 32), (str ''uint32_t'', 32), (str ''float'', 32),
      (str ''int64_t'', 64), (str ''uint64_t'', 64), (str ''double'', 64)]"
    unfolding TYPE_BITS_def by (rule map_of_SomeD)
  then show ?thesis by auto
qed

lemma get_type_size_pos: "0 < get_type_size t"
proof (cases "TYPE_BITS (get_base_type t)")
  case None
  then show ?thesis by (simp add: get_type_size_def get_type_bits_def)
next
  case (Some v)
  then have "v \<in> {8, 16, 32, 64}" by (rule TYPE_BITS_values)
  with Some show ?thesis by (auto simp: get_type_size_def get_type_bits_def)
qed

lemma prefix_sum_mono:
  fixes xs :: "int list"
  assumes "\<forall>x\<in>set xs. 0 \<le> x" and "i < j" and "j \<le> length xs"
  shows "sum_list (take i xs) + xs ! i \<le> sum_list (take j xs)"
proof -
  define d where "d = drop (Suc i) (take j xs)"
  have "take (Suc i) (take j xs) = take (Suc i) xs" using assms(2) by simp
  then have "take j xs = take (Suc i) xs @ d"
    unfolding d_def using append_take_drop_id [of "Suc i" "take j xs"] by simp
  moreover have "take (Suc i) xs = take i xs @ [xs ! i]"
    using assms(2,3) by (simp add: take_Suc_conv_app_nth)
  ultimately have "sum_list (take j xs) = sum_list (take i xs) + xs ! i + sum_list d"
    by simp
  moreover have "0 \<le> sum_list d"
    unfolding d_def using assms(1) by (intro sum_list_nonneg) (auto dest!: in_set_dropD in_set_takeD)
  ultimately show ?thesis by simp
qed

lemma offsets_loop_Cons:
  "get_array_length (type f) = Inr len \<Longrightarrow>
   offsets_loop (f # fs) cur acc =
   offsets_loop fs (cur + get_type_size (type f) * len)
     (acc @ [\<lparr>name = name f, type = type f, extension = extension f,
     offset = cur, size_f = get_type_size (type f), array_length = len,
     base_type = get_base_type (type f)\<rparr>])"
  by (simp add: Let_def)

lemma offsets_loop_Cons_Inl:
  "get_array_length (type f) = Inl e \<Longrightarrow> offsets_loop (f # fs) cur acc = Inl e"
  by (simp add: Let_def)

lemma offsets_loop_result:
  "offsets_loop fs cur acc = Inr (res, c) \<Longrightarrow>
   \<exists>new. res = acc @ new \<and> map field.truncate new = fs \<and>
     (\<forall>r\<in>set new. size_f r = get_type_size (type r) \<and>
        get_array_length (type r) = Inr (array_length r) \<and>
        base_type r = get_base_type (type r)) \<and>
     (\<forall>i<length new. offset (new ! i) = cur + sum_list (map field_width (take i new))) \<and>
     c = cur + sum_list (map field_width new)"
proof (induction fs arbitrary: cur acc)
  case Nil
  then show ?case by simp
next
  case (Cons f fs)
  obtain len where len: "get_array_length (type f) = Inr len"
  proof (cases "get_array_length (type f)")
    case (Inl e)
    then have "offsets_loop (f # fs) cur acc = Inl e" by (rule offsets_loop_Cons_Inl)
    with Cons.prems show ?thesis by simp
  next
    case (Inr n)
    then show ?thesis by (rule that)
  qed
  define nf where "nf = \<lparr>name = name f, type = type f, extension = extension f,
     offset = cur, size_f = get_type_size (type f), array_length = len,
     base_type = get_base_type (type f)\<rparr>"
  have nf: "field.truncate nf = f" "offset nf = cur" "size_f nf = get_type_size (type f)"
    "array_length nf = len" "base_type nf = get_base_type (type f)" "type nf = type f"
    by (simp_all add: nf_def field.truncate_def)
  from Cons.prems offsets_loop_Cons [OF len, of fs cur acc]
  have "offsets_loop fs (cur + get_type_size (type f) * len) (acc @ [nf]) = Inr (res, c)"
    by (simp only: nf_def)
  from Cons.IH [OF this] obtain new where new:
    "res = (acc @ [nf]) @ new" "map field.truncate new = fs"
    "\<forall>r\<in>set new. size_f r = get_type_size (type r) \<and>
        get_array_length (type r) = Inr (array_length r) \<and>
        base_type r = get_base_type (type r)"
    "\<forall>i<length new. offset (new ! i) =
        cur + get_type_size (type f) * len + sum_list (map field_width (take i new))"
    "c = cur + get_type_size (type f) * len + sum_list (map field_width new)"
    by (elim exE conjE)
  have w: "field_width nf = get_type_size (type f) * len"
    by (simp add: field_width_def nf)
  have 1: "res = acc @ (nf # new)" using new(1) by simp
  have 2: "map field.truncate (nf # new) = f # fs"
    using new(2) nf(1) by simp
  have 3: "\<forall>r\<in>set (nf # new). size_f r = get_type_size (type r) \<and>
        get_array_length (type r) = Inr (array_length r) \<and>
        base_type r = get_base_type (type r)"
    using new(3) len nf by simp
  have 4: "\<forall>i<length (nf # new). offset ((nf # new) ! i) =
        cur + sum_list (map field_width (take i (nf # new)))"
  proof (intro allI impI)
    fix i assume i: "i < length (nf # new)"
    show "offset ((nf # new) ! i) = cur + sum_list (map field_width (take i (nf # new)))"
    proof (cases i)
      case 0
      then show ?thesis by (simp add: nf)
    next
      case (Suc k)
      with i have "k < length new" by simp
      with new(4) have "offset (new ! k) =
        cur + get_type_size (type f) * len + sum_list (map field_width (take k new))" by simp
      with Suc w show ?thesis by simp
    qed
  qed
  have 5: "c = cur + sum_list (map field_width (nf # new))"
    using new(5) w by simp
  from 1 2 3 4 5 show ?case by (intro exI [of _ "nf # new"] conjI)
qed

lemma offsets_loop_total:
  "offsets_loop fs 0 [] = Inr (res, c) \<Longrightarrow>
   map field.truncate res = fs \<and>
   (\<forall>r\<in>set res. size_f r = get_type_size (type r) \<and>
        get_array_length (type r) = Inr (array_length r) \<and>
        base_type r = get_base_type (type r)) \<and>
   (\<forall>i<length res. offset (res ! i) = sum_list (map field_width (take i res))) \<and>
   c = sum_list (map field_width res)"
  using offsets_loop_result [of fs 0 "[]" res c] by auto

lemma calculate_field_offsets_loop:
  "calculate_field_offsets flds = Inr res \<Longrightarrow>
   \<exists>c. offsets_loop (order_fields_for_serialization flds) 0 [] = Inr (res, c)"
  by (auto simp: calculate_field_offsets_def Let_def split: sum.splits)

lemma ranges_disjoint:
  assumes off: "\<forall>i<length res. offset (res ! i) = sum_list (map field_width (take i res))"
    and nonneg: "\<forall>r\<in>set res. 0 \<le> field_width r"
    and ij: "i < j" "j < length res"
  shows "field_range (res ! i) \<inter> field_range (res ! j) = {}"
proof -
  have "sum_list (take i (map field_width res)) + map field_width res ! i
        \<le> sum_list (take j (map field_width res))"
    using nonneg ij by (intro prefix_sum_mono) auto
  then have "offset (res ! i) + field_width (res ! i) \<le> offset (res ! j)"
    using off ij by (simp add: take_map)
  then show ?thesis by (auto simp: field_range_def)
qed

text \<open>
  C7, amended. When \<open>calculate_field_offsets\<close> returns a layout, the layout lists the
  fields in canonical order, extension fields included, each with the size and array
  length that \<open>get_type_size\<close> and \<open>get_array_length\<close> give for its type; the offset of
  each field is the sum of \<open>size * array_length\<close> over the fields before it, starting
  from 0, so the extension fields continue where the non-extension fields end; the loop
  ends with the cursor at the sum over all fields; and when no array length is negative,
  no two fields' byte ranges overlap.
\<close>

theorem layout_offsets_are_prefix_sums:
  assumes "calculate_field_offsets flds = Inr res"
  shows "map field.truncate res = order_fields_for_serialization flds \<and>
         (\<forall>r\<in>set res. size_f r = get_type_size (type r) \<and>
            get_array_length (type r) = Inr (array_length r)) \<and>
         (\<forall>i<length res. offset (res ! i) = sum_list (map field_width (take i res))) \<and>
         offsets_loop (order_fields_for_serialization flds) 0 [] =
            Inr (res, sum_list (map field_width res)) \<and>
         ((\<forall>r\<in>set res. 0 \<le> array_length r) \<longrightarrow>
            (\<forall>i j. i < j \<and> j < length res \<longrightarrow>
               field_range (res ! i) \<inter> field_range (res ! j) = {}))"
proof -
  from assms obtain c where
    loop: "offsets_loop (order_fields_for_serialization flds) 0 [] = Inr (res, c)"
    using calculate_field_offsets_loop by blast
  note tot = offsets_loop_total [OF loop]
  have 1: "map field.truncate res = order_fields_for_serialization flds" using tot by simp
  have 2: "\<forall>r\<in>set res. size_f r = get_type_size (type r) \<and>
            get_array_length (type r) = Inr (array_length r)" using tot by simp
  have 3: "\<forall>i<length res. offset (res ! i) = sum_list (map field_width (take i res))"
    using tot by simp
  have "c = sum_list (map field_width res)" using tot by simp
  with loop have 4: "offsets_loop (order_fields_for_serialization flds) 0 [] =
            Inr (res, sum_list (map field_width res))" by simp
  have 5: "(\<forall>r\<in>set res. 0 \<le> array_length r) \<longrightarrow>
            (\<forall>i j. i < j \<and> j < length res \<longrightarrow>
               field_range (res ! i) \<inter> field_range (res ! j) = {})"
  proof (intro impI allI)
    fix i j
    assume len: "\<forall>r\<in>set res. 0 \<le> array_length r" and ij: "i < j \<and> j < length res"
    have "\<forall>r\<in>set res. 0 \<le> field_width r"
    proof
      fix r assume r: "r \<in> set res"
      with 2 have "size_f r = get_type_size (type r)" by simp
      then have "0 \<le> size_f r" using get_type_size_pos [of "type r"] by simp
      moreover have "0 \<le> array_length r" using len r by simp
      ultimately show "0 \<le> field_width r" by (simp add: field_width_def)
    qed
    with 3 ij show "field_range (res ! i) \<inter> field_range (res ! j) = {}"
      by (intro ranges_disjoint) auto
  qed
  from 1 2 3 4 5 show ?thesis by (intro conjI)
qed

theorem layout_offsets_are_prefix_sums_witness:
  "calculate_field_offsets
     [fld ''e'' ''uint32_t'' True, fld ''a'' ''uint8_t'' False, fld ''b'' ''uint16_t[2]'' False] =
   Inr [\<lparr>name = str ''b'', type = str ''uint16_t[2]'', extension = Some False,
          offset = 0, size_f = 2, array_length = 2, base_type = str ''uint16_t''\<rparr>,
        \<lparr>name = str ''a'', type = str ''uint8_t'', extension = Some False,
          offset = 4, size_f = 1, array_length = 1, base_type = str ''uint8_t''\<rparr>,
        \<lparr>name = str ''e'', type = str ''uint32_t'', extension = Some True,
          offset = 5, size_f = 4, array_length = 1, base_type = str ''uint32_t''\<rparr>] \<and>
   offsets_loop (order_fields_for_serialization
     [fld ''e'' ''uint32_t'' True, fld ''a'' ''uint8_t'' False, fld ''b'' ''uint16_t[2]'' False]) 0 [] =
   Inr ([\<lparr>name = str ''b'', type = str ''uint16_t[2]'', extension = Some False,
          offset = 0, size_f = 2, array_length = 2, base_type = str ''uint16_t''\<rparr>,
        \<lparr>name = str ''a'', type = str ''uint8_t'', extension = Some False,
          offset = 4, size_f = 1, array_length = 1, base_type = str ''uint8_t''\<rparr>,
        \<lparr>name = str ''e'', type = str ''uint32_t'', extension = Some True,
          offset = 5, size_f = 4, array_length = 1, base_type = str ''uint32_t''\<rparr>], 9)"
proof -
  have h: "calculate_field_offsets
     [fld ''e'' ''uint32_t'' True, fld ''a'' ''uint8_t'' False, fld ''b'' ''uint16_t[2]'' False] =
   Inr [\<lparr>name = str ''b'', type = str ''uint16_t[2]'', extension = Some False,
          offset = 0, size_f = 2, array_length = 2, base_type = str ''uint16_t''\<rparr>,
        \<lparr>name = str ''a'', type = str ''uint8_t'', extension = Some False,
          offset = 4, size_f = 1, array_length = 1, base_type = str ''uint8_t''\<rparr>,
        \<lparr>name = str ''e'', type = str ''uint32_t'', extension = Some True,
          offset = 5, size_f = 4, array_length = 1, base_type = str ''uint32_t''\<rparr>]"
    by code_simp
  show ?thesis
    using h layout_offsets_are_prefix_sums [OF h]
    by (simp add: field_width_def)
qed

text \<open>
  C7, as stated, fails: the layout of the fields \<open>a: uint32_t\<close>, \<open>b: uint8_t[-3]\<close>,
  \<open>c: uint8_t\<close> is computed without error, moves the cursor back by 3 at \<open>b\<close>, and
  puts \<open>c\<close> at offset 1, inside the bytes 0 to 3 of \<open>a\<close>.
\<close>

theorem layout_overlap_counterexample:
  "calculate_field_offsets
     [fld ''a'' ''uint32_t'' False, fld ''b'' ''uint8_t[-3]'' False, fld ''c'' ''uint8_t'' False] =
   Inr [\<lparr>name = str ''a'', type = str ''uint32_t'', extension = Some False,
          offset = 0, size_f = 4, array_length = 1, base_type = str ''uint32_t''\<rparr>,
        \<lparr>name = str ''b'', type = str ''uint8_t[-3]'', extension = Some False,
          offset = 4, size_f = 1, array_length = - 3, base_type = str ''uint8_t''\<rparr>,
        \<lparr>name = str ''c'', type = str ''uint8_t'', extension = Some False,
          offset = 1, size_f = 1, array_length = 1, base_type = str ''uint8_t''\<rparr>] \<and>
   1 \<in> field_range \<lparr>name = str ''a'', type = str ''uint32_t'', extension = Some False,
          offset = 0, size_f = 4, array_length = 1, base_type = str ''uint32_t''\<rparr>
       \<inter> field_range \<lparr>name = str ''c'', type = str ''uint8_t'', extension = Some False,
          offset = 1, size_f = 1, array_length = 1, base_type = str ''uint8_t''\<rparr>"
proof
  show "calculate_field_offsets
     [fld ''a'' ''uint32_t'' False, fld ''b'' ''uint8_t[-3]'' False, fld ''c'' ''uint8_t'' False] =
   Inr [\<lparr>name = str ''a'', type = str ''uint32_t'', extension = Some False,
          offset = 0, size_f = 4, array_length = 1, base_type = str ''uint32_t''\<rparr>,
        \<lparr>name = str ''b'', type = str ''uint8_t[-3]'', extension = Some False,
          offset = 4, size_f = 1, array_length = - 3, base_type = str ''uint8_t''\<rparr>,
        \<lparr>name = str ''c'', type = str ''uint8_t'', extension = Some False,
          offset = 1, size_f = 1, array_length = 1, base_type = str ''uint8_t''\<rparr>]"
    by code_simp
  show "1 \<in> field_range \<lparr>name = str ''a'', type = str ''uint32_t'', extension = Some False,
          offset = 0, size_f = 4, array_length = 1, base_type = str ''uint32_t''\<rparr>
       \<inter> field_range \<lparr>name = str ''c'', type = str ''uint8_t'', extension = Some False,
          offset = 1, size_f = 1, array_length = 1, base_type = str ''uint8_t''\<rparr>"
    by (simp add: field_range_def field_width_def)
qed

subsection \<open>Permutations of the declaration order\<close>

lemma same_relative_order_all:
  "same_relative_order flds perm \<longleftrightarrow>
   (\<forall>w. filter (\<lambda>f. \<not> is_extension f \<and> field_bits f = w) perm =
        filter (\<lambda>f. \<not> is_extension f \<and> field_bits f = w) flds) \<and>
   filter is_extension perm = filter is_extension flds"
proof -
  have out: "filter (\<lambda>f. \<not> is_extension f \<and> field_bits f = w) xs = []"
    if "w \<notin> set (map field_bits (flds @ perm))" and "set xs \<subseteq> set (flds @ perm)"
    for w and xs :: "field list"
  proof (rule filter_none, rule ballI)
    fix f assume "f \<in> set xs"
    with that(2) have "f \<in> set (flds @ perm)" by (rule subsetD)
    then have "field_bits f \<in> field_bits ` set (flds @ perm)" by (rule imageI)
    with that(1) have "field_bits f \<noteq> w" by (simp only: set_map) blast
    then show "\<not> (\<not> is_extension f \<and> field_bits f = w)" by simp
  qed
  have "(\<forall>w. filter (\<lambda>f. \<not> is_extension f \<and> field_bits f = w) perm =
        filter (\<lambda>f. \<not> is_extension f \<and> field_bits f = w) flds) \<longleftrightarrow>
        (\<forall>w \<in> set (map field_bits (flds @ perm)).
         filter (\<lambda>f. \<not> is_extension f \<and> field_bits f = w) perm =
         filter (\<lambda>f. \<not> is_extension f \<and> field_bits f = w) flds)"
  proof
    assume r: "\<forall>w \<in> set (map field_bits (flds @ perm)).
         filter (\<lambda>f. \<not> is_extension f \<and> field_bits f = w) perm =
         filter (\<lambda>f. \<not> is_extension f \<and> field_bits f = w) flds"
    show "\<forall>w. filter (\<lambda>f. \<not> is_extension f \<and> field_bits f = w) perm =
        filter (\<lambda>f. \<not> is_extension f \<and> field_bits f = w) flds"
    proof
      fix w
      show "filter (\<lambda>f. \<not> is_extension f \<and> field_bits f = w) perm =
        filter (\<lambda>f. \<not> is_extension f \<and> field_bits f = w) flds"
      proof (cases "w \<in> set (map field_bits (flds @ perm))")
        case True
        with r show ?thesis by blast
      next
        case False
        then show ?thesis using out [of w perm] out [of w flds] by simp
      qed
    qed
  qed blast
  then show ?thesis by (simp add: same_relative_order_def)
qed

lemma order_eq_iff_same_relative_order:
  "order_fields_for_serialization perm = order_fields_for_serialization flds \<longleftrightarrow>
   same_relative_order flds perm"
proof
  assume eq: "order_fields_for_serialization perm = order_fields_for_serialization flds"
  have "filter is_extension perm = filter is_extension flds"
    using order_filter_extension [of perm] order_filter_extension [of flds] eq by simp
  moreover have "filter (\<lambda>f. \<not> is_extension f \<and> field_bits f = w) perm =
        filter (\<lambda>f. \<not> is_extension f \<and> field_bits f = w) flds" for w
  proof -
    have "filter (\<lambda>f. field_bits f = w) (filter (\<lambda>f. \<not> is_extension f) xs) =
          filter (\<lambda>f. field_bits f = w) (filter (\<lambda>f. \<not> is_extension f) (order_fields_for_serialization xs))"
      for xs
      by (simp only: order_filter_non_extension field_bits_def sort_reverse_stable)
    from this [of perm] this [of flds] eq
    have "filter (\<lambda>f. field_bits f = w) (filter (\<lambda>f. \<not> is_extension f) perm) =
          filter (\<lambda>f. field_bits f = w) (filter (\<lambda>f. \<not> is_extension f) flds)"
      by (simp only:)
    then show ?thesis by (simp only: filter_filter conj_commute)
  qed
  ultimately show "same_relative_order flds perm"
    by (simp add: same_relative_order_all)
next
  assume "same_relative_order flds perm"
  then have cls: "\<And>w. filter (\<lambda>f. \<not> is_extension f \<and> field_bits f = w) perm =
        filter (\<lambda>f. \<not> is_extension f \<and> field_bits f = w) flds"
    and ext: "filter is_extension perm = filter is_extension flds"
    by (simp_all add: same_relative_order_all)
  have "sort_reverse (\<lambda>f. get_type_bits (type f)) (filter (\<lambda>f. \<not> is_extension f) perm) =
        sort_reverse (\<lambda>f. get_type_bits (type f)) (filter (\<lambda>f. \<not> is_extension f) flds)"
  proof (rule sort_reverse_by_classes)
    fix w
    show "filter (\<lambda>y. get_type_bits (type y) = w) (filter (\<lambda>f. \<not> is_extension f) perm) =
          filter (\<lambda>y. get_type_bits (type y) = w) (filter (\<lambda>f. \<not> is_extension f) flds)"
      using cls [of w] by (simp only: filter_filter field_bits_def conj_commute)
  qed
  with ext show "order_fields_for_serialization perm = order_fields_for_serialization flds"
    by (simp add: order_fields_for_serialization_def)
qed

lemma results_from_order:
  "order_fields_for_serialization perm = order_fields_for_serialization flds \<Longrightarrow>
   calculate_crc_extra n perm = calculate_crc_extra n flds \<and>
   calculate_field_offsets perm = calculate_field_offsets flds"
  by (simp add: calculate_crc_extra_def calculate_field_offsets_def)

lemma layout_gives_order:
  "calculate_field_offsets flds = Inr l \<Longrightarrow> map field.truncate l = order_fields_for_serialization flds"
proof -
  assume a: "calculate_field_offsets flds = Inr l"
  from calculate_field_offsets_loop [OF a]
  obtain c where "offsets_loop (order_fields_for_serialization flds) 0 [] = Inr (l, c)" ..
  from offsets_loop_total [OF this] show ?thesis by (rule conjunct1)
qed

text \<open>
  C4, amended. For every message name, field list and permutation of the list: a
  permutation that keeps the relative order of the non-extension fields of each bit width
  and of the extension fields gives the same checksum result and the same layout result
  as the original list (so does, in particular, one that only moves fields of different
  widths past each other); and when \<open>calculate_field_offsets\<close> returns a layout for
  the original list, checksum and layout are both unchanged if and only if the
  permutation keeps these relative orders.
\<close>

theorem permutation_invariance:
  assumes "mset perm = mset flds"
  shows "(same_relative_order flds perm \<longrightarrow>
            calculate_crc_extra n perm = calculate_crc_extra n flds \<and>
            calculate_field_offsets perm = calculate_field_offsets flds) \<and>
         (calculate_field_offsets flds = Inr l \<longrightarrow>
            (calculate_crc_extra n perm = calculate_crc_extra n flds \<and>
             calculate_field_offsets perm = calculate_field_offsets flds
             \<longleftrightarrow> same_relative_order flds perm))"
proof (intro conjI impI)
  assume "same_relative_order flds perm"
  then have "order_fields_for_serialization perm = order_fields_for_serialization flds"
    by (simp add: order_eq_iff_same_relative_order)
  then show "calculate_crc_extra n perm = calculate_crc_extra n flds"
    and "calculate_field_offsets perm = calculate_field_offsets flds"
    by (rule results_from_order [THEN conjunct1], rule results_from_order [THEN conjunct2])
next
  assume l: "calculate_field_offsets flds = Inr l"
  show "calculate_crc_extra n perm = calculate_crc_extra n flds \<and>
        calculate_field_offsets perm = calculate_field_offsets flds
        \<longleftrightarrow> same_relative_order flds perm"
  proof
    assume "calculate_crc_extra n perm = calculate_crc_extra n flds \<and>
        calculate_field_offsets perm = calculate_field_offsets flds"
    then have "calculate_field_offsets perm = calculate_field_offsets flds" by (rule conjunct2)
    with l have p: "calculate_field_offsets perm = Inr l" by (simp only:)
    have "order_fields_for_serialization perm = order_fields_for_serialization flds"
      using layout_gives_order [OF p] layout_gives_order [OF l] by (simp only:)
    then show "same_relative_order flds perm"
      by (simp add: order_eq_iff_same_relative_order)
  next
    assume "same_relative_order flds perm"
    then have "order_fields_for_serialization perm = order_fields_for_serialization flds"
      by (simp add: order_eq_iff_same_relative_order)
    then show "calculate_crc_extra n perm = calculate_crc_extra n flds \<and>
        calculate_field_offsets perm = calculate_field_offsets flds"
      by (rule results_from_order)
  qed
qed

theorem permutation_invariance_witness:
  "mset [fld ''b'' ''uint32_t'' False, fld ''a'' ''uint8_t'' False, fld ''c'' ''uint8_t'' False] =
   mset [fld ''a'' ''uint8_t'' False, fld ''b'' ''uint32_t'' False, fld ''c'' ''uint8_t'' False] \<and>
   same_relative_order
     [fld ''a'' ''uint8_t'' False, fld ''b'' ''uint32_t'' False, fld ''c'' ''uint8_t'' False]
     [fld ''b'' ''uint32_t'' False, fld ''a'' ''uint8_t'' False, fld ''c'' ''uint8_t'' False] \<and>
   calculate_crc_extra (str ''M'')
     [fld ''b'' ''uint32_t'' False, fld ''a'' ''uint8_t'' False, fld ''c'' ''uint8_t'' False] =
   calculate_crc_extra (str ''M'')
     [fld ''a'' ''uint8_t'' False, fld ''b'' ''uint32_t'' False, fld ''c'' ''uint8_t'' False] \<and>
   calculate_field_offsets
     [fld ''b'' ''uint32_t'' False, fld ''a'' ''uint8_t'' False, fld ''c'' ''uint8_t'' False] =
   calculate_field_offsets
     [fld ''a'' ''uint8_t'' False, fld ''b'' ''uint32_t'' False, fld ''c'' ''uint8_t'' False] \<and>
   calculate_field_offsets
     [fld ''a'' ''uint8_t'' False, fld ''b'' ''uint32_t'' False, fld ''c'' ''uint8_t'' False] =
   Inr [\<lparr>name = str ''b'', type = str ''uint32_t'', extension = Some False,
          offset = 0, size_f = 4, array_length = 1, base_type = str ''uint32_t''\<rparr>,
        \<lparr>name = str ''a'', type = str ''uint8_t'', extension = Some False,
          offset = 4, size_f = 1, array_length = 1, base_type = str ''uint8_t''\<rparr>,
        \<lparr>name = str ''c'', type = str ''uint8_t'', extension = Some False,
          offset = 5, size_f = 1, array_length = 1, base_type = str ''uint8_t''\<rparr>] \<and>
   mset [fld ''c'' ''uint8_t'' False, fld ''b'' ''uint32_t'' False, fld ''a'' ''uint8_t'' False] =
   mset [fld ''a'' ''uint8_t'' False, fld ''b'' ''uint32_t'' False, fld ''c'' ''uint8_t'' False] \<and>
   \<not> same_relative_order
     [fld ''a'' ''uint8_t'' False, fld ''b'' ''uint32_t'' False, fld ''c'' ''uint8_t'' False]
     [fld ''c'' ''uint8_t'' False, fld ''b'' ''uint32_t'' False, fld ''a'' ''uint8_t'' False] \<and>
   \<not> (calculate_crc_extra (str ''M'')
          [fld ''c'' ''uint8_t'' False, fld ''b'' ''uint32_t'' False, fld ''a'' ''uint8_t'' False] =
        calculate_crc_extra (str ''M'')
          [fld ''a'' ''uint8_t'' False, fld ''b'' ''uint32_t'' False, fld ''c'' ''uint8_t'' False] \<and>
        calculate_field_offsets
          [fld ''c'' ''uint8_t'' False, fld ''b'' ''uint32_t'' False, fld ''a'' ''uint8_t'' False] =
        calculate_field_offsets
          [fld ''a'' ''uint8_t'' False, fld ''b'' ''uint32_t'' False, fld ''c'' ''uint8_t'' False])"
proof -
  have m: "mset [fld ''b'' ''uint32_t'' False, fld ''a'' ''uint8_t'' False, fld ''c'' ''uint8_t'' False] =
   mset [fld ''a'' ''uint8_t'' False, fld ''b'' ''uint32_t'' False, fld ''c'' ''uint8_t'' False]"
    by (simp add: add_mset_commute)
  have r: "same_relative_order
     [fld ''a'' ''uint8_t'' False, fld ''b'' ''uint32_t'' False, fld ''c'' ''uint8_t'' False]
     [fld ''b'' ''uint32_t'' False, fld ''a'' ''uint8_t'' False, fld ''c'' ''uint8_t'' False]"
    by code_simp
  have l: "calculate_field_offsets
     [fld ''a'' ''uint8_t'' False, fld ''b'' ''uint32_t'' False, fld ''c'' ''uint8_t'' False] =
   Inr [\<lparr>name = str ''b'', type = str ''uint32_t'', extension = Some False,
          offset = 0, size_f = 4, array_length = 1, base_type = str ''uint32_t''\<rparr>,
        \<lparr>name = str ''a'', type = str ''uint8_t'', extension = Some False,
          offset = 4, size_f = 1, array_length = 1, base_type = str ''uint8_t''\<rparr>,
        \<lparr>name = str ''c'', type = str ''uint8_t'', extension = Some False,
          offset = 5, size_f = 1, array_length = 1, base_type = str ''uint8_t''\<rparr>]"
    by code_simp
  have m': "mset [fld ''c'' ''uint8_t'' False, fld ''b'' ''uint32_t'' False, fld ''a'' ''uint8_t'' False] =
   mset [fld ''a'' ''uint8_t'' False, fld ''b'' ''uint32_t'' False, fld ''c'' ''uint8_t'' False]"
    by (simp add: add_mset_commute)
  have r': "\<not> same_relative_order
     [fld ''a'' ''uint8_t'' False, fld ''b'' ''uint32_t'' False, fld ''c'' ''uint8_t'' False]
     [fld ''c'' ''uint8_t'' False, fld ''b'' ''uint32_t'' False, fld ''a'' ''uint8_t'' False]"
    by code_simp
  show ?thesis
    using m r l m' r'
      permutation_invariance [OF m, of "str ''M''"]
      permutation_invariance [OF m', of "str ''M''"
        "[\<lparr>name = str ''b'', type = str ''uint32_t'', extension = Some False,
          offset = 0, size_f = 4, array_length = 1, base_type = str ''uint32_t''\<rparr>,
        \<lparr>name = str ''a'', type = str ''uint8_t'', extension = Some False,
          offset = 4, size_f = 1, array_length = 1, base_type = str ''uint8_t''\<rparr>,
        \<lparr>name = str ''c'', type = str ''uint8_t'', extension = Some False,
          offset = 5, size_f = 1, array_length = 1, base_type = str ''uint8_t''\<rparr>]"]
    by (simp only: simp_thms)
qed

text \<open>
  C4, as stated, fails on a field list whose type strings do not resolve: with the types
  \<open>uint8_t[\<close> (no closing bracket) both the checksum and the layout raise
  \<open>ValueError\<close> for the fields in either order. Swapping the two fields gives the same
  outcome although their relative order changed, and leaving them in place yields no
  checksum although their relative order is kept.
\<close>

theorem permutation_invariance_counterexample:
  "mset [fld ''b'' ''uint8_t['' False, fld ''a'' ''uint8_t['' False] =
   mset [fld ''a'' ''uint8_t['' False, fld ''b'' ''uint8_t['' False] \<and>
   calculate_crc_extra (str ''M'') [fld ''a'' ''uint8_t['' False, fld ''b'' ''uint8_t['' False] = Inl ValueError \<and>
   calculate_crc_extra (str ''M'') [fld ''b'' ''uint8_t['' False, fld ''a'' ''uint8_t['' False] = Inl ValueError \<and>
   calculate_field_offsets [fld ''a'' ''uint8_t['' False, fld ''b'' ''uint8_t['' False] = Inl ValueError \<and>
   calculate_field_offsets [fld ''b'' ''uint8_t['' False, fld ''a'' ''uint8_t['' False] = Inl ValueError \<and>
   \<not> same_relative_order
     [fld ''a'' ''uint8_t['' False, fld ''b'' ''uint8_t['' False]
     [fld ''b'' ''uint8_t['' False, fld ''a'' ''uint8_t['' False] \<and>
   same_relative_order
     [fld ''a'' ''uint8_t['' False, fld ''b'' ''uint8_t['' False]
     [fld ''a'' ''uint8_t['' False, fld ''b'' ''uint8_t['' False]"
proof (intro conjI)
  show "mset [fld ''b'' ''uint8_t['' False, fld ''a'' ''uint8_t['' False] =
   mset [fld ''a'' ''uint8_t['' False, fld ''b'' ''uint8_t['' False]"
    by (simp add: add_mset_commute)
  show "calculate_crc_extra (str ''M'') [fld ''a'' ''uint8_t['' False, fld ''b'' ''uint8_t['' False] = Inl ValueError"
    by code_simp
  show "calculate_crc_extra (str ''M'') [fld ''b'' ''uint8_t['' False, fld ''a'' ''uint8_t['' False] = Inl ValueError"
    by code_simp
  show "calculate_field_offsets [fld ''a'' ''uint8_t['' False, fld ''b'' ''uint8_t['' False] = Inl ValueError"
    by code_simp
  show "calculate_field_offsets [fld ''b'' ''uint8_t['' False, fld ''a'' ''uint8_t['' False] = Inl ValueError"
    by code_simp
  show "\<not> same_relative_order
     [fld ''a'' ''uint8_t['' False, fld ''b'' ''uint8_t['' False]
     [fld ''b'' ''uint8_t['' False, fld ''a'' ''uint8_t['' False]"
    by code_simp
  show "same_relative_order
     [fld ''a'' ''uint8_t['' False, fld ''b'' ''uint8_t['' False]
     [fld ''a'' ''uint8_t['' False, fld ''b'' ''uint8_t['' False]"
    by code_simp
qed

end
